theory Spec2Isabelle
  imports Complex_Main "HOL-Library.FSet"
begin

section \<open>Data model\<close>

text \<open>
  The program is \<^verbatim>\<open>src/pagerank.py\<close>. A corpus is a Python \<^verbatim>\<open>dict\<close> from a page name
  to the \<^verbatim>\<open>set\<close> of pages it links to. A dict keeps its keys in insertion order and the
  code iterates over them, so a dict is an association list here (its keys are distinct,
  which the theorems assume where they need it), and a Python set is a finite set.

  Python's \<^verbatim>\<open>float\<close> is idealised: every number is an exact rational (\<^typ>\<open>rat\<close>), so
  rounding, overflow and the order of a floating-point summation are outside this model.
  Each theorem below is a statement about the code under exact arithmetic.
\<close>

type_synonym 'p corpus = "('p \<times> 'p fset) list"

type_synonym 'p dist = "('p \<times> rat) list"


text \<open>
  The exceptions the code can raise. The first four are Python's own, raised by a dict
  lookup, by \<^verbatim>\<open>random.choice\<close> on an empty sequence, by a division and by
  \<^verbatim>\<open>random.choices\<close> on weights whose total is not positive. \<open>SumException\<close> is the
  one exception the code raises itself: the plain \<^verbatim>\<open>Exception\<close> of lines 91, 133 and
  195, when a normalised distribution does not sum to 1.
\<close>

datatype py_error = KeyError | IndexError | ZeroDivisionError | ValueError | SumException

type_synonym 'a result = "py_error + 'a"

text \<open>\<^verbatim>\<open>a / b\<close> on numbers: a zero divisor raises.\<close>

definition truediv :: "rat \<Rightarrow> rat \<Rightarrow> rat result" where
  "truediv a b = (if b = 0 then Inl ZeroDivisionError else Inr (a / b))"

text \<open>\<^verbatim>\<open>d[k]\<close>: a missing key raises.\<close>

definition getitem :: "('k \<times> 'v) list \<Rightarrow> 'k \<Rightarrow> 'v result" where
  "getitem d k = (case map_of d k of None \<Rightarrow> Inl KeyError | Some v \<Rightarrow> Inr v)"

text \<open>\<^verbatim>\<open>d[k] = v\<close>: an existing key keeps its place, a new key goes last.\<close>

fun setitem :: "('k \<times> 'v) list \<Rightarrow> 'k \<Rightarrow> 'v \<Rightarrow> ('k \<times> 'v) list" where
  "setitem [] k v = [(k, v)]"
| "setitem ((k', v') # d) k v = (if k' = k then (k, v) # d else (k', v') # setitem d k v)"

text \<open>
  A comprehension \<^verbatim>\<open>{k: e for ... in d.items()}\<close> whose expression may raise: the
  expression is evaluated once per item, in order, and the first exception ends it. On an
  empty dict the expression is never evaluated.
\<close>

fun comprehension :: "('a \<Rightarrow> 'b result) \<Rightarrow> 'a list \<Rightarrow> 'b list result" where
  "comprehension f [] = Inr []"
| "comprehension f (x # xs) =
     (case f x of
        Inl e \<Rightarrow> Inl e
      | Inr y \<Rightarrow> (case comprehension f xs of Inl e \<Rightarrow> Inl e | Inr ys \<Rightarrow> Inr (y # ys)))"

text \<open>\<^verbatim>\<open>sum(d.values())\<close>.\<close>

definition sum_values :: "('k \<times> rat) list \<Rightarrow> rat" where
  "sum_values d = sum_list (map snd d)"

section \<open>The normalisation block\<close>

text \<open>
  The three functions end with the same block (lines 84--91, 126--133, 188--195):
  \<^verbatim>\<open>
  total_probability = sum(d.values())
  d = {page: prob / total_probability for page, prob in d.items()}
  if sum(d.values()) != 1:
      raise Exception(...)
  \<close>
\<close>

definition normalize_probability :: "'p dist \<Rightarrow> 'p dist result" where
  "normalize_probability d =
     (let total_probability = sum_values d in
      case comprehension
             (\<lambda>(page, prob).
                case truediv prob total_probability of
                  Inl e \<Rightarrow> Inl e
                | Inr v \<Rightarrow> Inr (page, v)) d of
        Inl e \<Rightarrow> Inl e
      | Inr d' \<Rightarrow> if sum_values d' \<noteq> 1 then Inl SumException else Inr d')"

section \<open>Transition model (lines 51--93)\<close>

text \<open>
  Lines 71--82: the weights of a page with links, before normalisation. The loop of
  lines 78--82 assigns every key of \<^verbatim>\<open>pd_dict\<close> once and reads no value of it.
\<close>

definition link_weights :: "'p corpus \<Rightarrow> 'p fset \<Rightarrow> rat \<Rightarrow> 'p dist \<Rightarrow> 'p dist result" where
  "link_weights corpus page_links damping_factor pd_dict =
     (case truediv damping_factor (of_nat (fcard page_links)) of
        Inl e \<Rightarrow> Inl e
      | Inr links_probability \<Rightarrow>
          (case truediv (1 - damping_factor) (of_nat (length corpus)) of
             Inl e \<Rightarrow> Inl e
           | Inr damping_probability \<Rightarrow>
               Inr (map (\<lambda>(page, _).
                          (page, if page |\<in>| page_links
                                 then links_probability + damping_probability
                                 else damping_probability)) pd_dict)))"

definition transition_model :: "'p corpus \<Rightarrow> 'p \<Rightarrow> rat \<Rightarrow> 'p dist result" where
  "transition_model corpus page damping_factor =
     (case comprehension
             (\<lambda>(key, _).
                case truediv 1 (of_nat (length corpus)) of
                  Inl e \<Rightarrow> Inl e
                | Inr v \<Rightarrow> Inr (key, v)) corpus of
        Inl e \<Rightarrow> Inl e
      | Inr pd_dict \<Rightarrow>
          (case getitem corpus page of
             Inl e \<Rightarrow> Inl e
           | Inr page_links \<Rightarrow>
               if fcard page_links = 0 then Inr pd_dict
               else (case link_weights corpus page_links damping_factor pd_dict of
                       Inl e \<Rightarrow> Inl e
                     | Inr pd_dict' \<Rightarrow> normalize_probability pd_dict')))"

section \<open>Sampling engine (lines 97--135)\<close>

text \<open>
  The module \<^verbatim>\<open>random\<close> is the one source of nondeterminism. It is a parameter of the
  model: a sequence of natural numbers, the generator's draws. Draw 0 decides
  \<^verbatim>\<open>random.choice\<close> of line 107 and draw \<open>i + 1\<close> decides the call of
  \<^verbatim>\<open>random.choices(population, weights, k=1)\<close> in round \<open>i\<close> of the loop. Both return a
  member of the sequence they are given, here the one at the draw's index (modulo the
  length), so every member can be picked and the weights decide only whether the call
  raises. The library raises \<^verbatim>\<open>IndexError\<close> on an empty sequence and \<^verbatim>\<open>ValueError\<close>
  when the total of the weights is not positive.
\<close>

type_synonym random_source = "nat \<Rightarrow> nat"

definition random_choice :: "random_source \<Rightarrow> 'p list \<Rightarrow> 'p result" where
  "random_choice rnd seq =
     (if seq = [] then Inl IndexError else Inr (seq ! (rnd 0 mod length seq)))"

definition random_choices :: "random_source \<Rightarrow> nat \<Rightarrow> 'p list \<Rightarrow> rat list \<Rightarrow> 'p result" where
  "random_choices rnd i population weights =
     (if population = [] then Inl IndexError
      else if sum_list weights \<le> 0 then Inl ValueError
      else Inr (population ! (rnd (Suc i) mod length population)))"

text \<open>
  Two random sources for the examples: one whose every draw is 0 and one whose
  \<open>k\<close>-th draw is \<open>k\<close>.
\<close>

definition first_member :: random_source where
  "first_member k = 0"

definition round_robin :: random_source where
  "round_robin k = k"

text \<open>
  Lines 112--119, the loop over \<^verbatim>\<open>range(n)\<close>: the state is the current page and the
  visit counters.
\<close>

fun sample_loop ::
  "random_source \<Rightarrow> 'p corpus \<Rightarrow> rat \<Rightarrow> nat list \<Rightarrow> 'p \<times> ('p \<times> nat) list
     \<Rightarrow> ('p \<times> ('p \<times> nat) list) result" where
  "sample_loop rnd corpus damping_factor [] st = Inr st"
| "sample_loop rnd corpus damping_factor (i # rest) (start_page, page_rank) =
     (case transition_model corpus start_page damping_factor of
        Inl e \<Rightarrow> Inl e
      | Inr current_state \<Rightarrow>
          (case random_choices rnd i (map fst current_state) (map snd current_state) of
             Inl e \<Rightarrow> Inl e
           | Inr next_page \<Rightarrow>
               (case getitem page_rank next_page of
                  Inl e \<Rightarrow> Inl e
                | Inr visits \<Rightarrow>
                    sample_loop rnd corpus damping_factor rest
                      (next_page, setitem page_rank next_page (visits + 1)))))"

text \<open>
  Lines 106--124: the estimates before normalisation. A counter that is still 0 stays
  the integer 0; any other is divided by \<open>n\<close>.
\<close>

definition sample_estimates ::
  "random_source \<Rightarrow> 'p corpus \<Rightarrow> rat \<Rightarrow> nat \<Rightarrow> 'p dist result" where
  "sample_estimates rnd corpus damping_factor n =
     (case random_choice rnd (map fst corpus) of
        Inl e \<Rightarrow> Inl e
      | Inr start_page \<Rightarrow>
          (case sample_loop rnd corpus damping_factor [0..<n]
                  (start_page, map (\<lambda>(key, _). (key, 0)) corpus) of
             Inl e \<Rightarrow> Inl e
           | Inr (_, page_rank) \<Rightarrow>
               comprehension
                 (\<lambda>(page, visits).
                    if visits > 0
                    then (case truediv (of_nat visits) (of_nat n) of
                            Inl e \<Rightarrow> Inl e
                          | Inr v \<Rightarrow> Inr (page, v))
                    else Inr (page, 0)) page_rank))"

definition sample_pagerank ::
  "random_source \<Rightarrow> 'p corpus \<Rightarrow> rat \<Rightarrow> nat \<Rightarrow> 'p dist result" where
  "sample_pagerank rnd corpus damping_factor n =
     (case sample_estimates rnd corpus damping_factor n of
        Inl e \<Rightarrow> Inl e
      | Inr page_rank \<Rightarrow> normalize_probability page_rank)"

section \<open>Iterative engine (lines 141--197)\<close>

text \<open>
  Lines 170--174, the inner loop over the corpus: \<open>acc\<close> is \<^verbatim>\<open>second_condition\<close>.
\<close>

fun inbound_sum :: "'p corpus \<Rightarrow> 'p dist \<Rightarrow> 'p \<Rightarrow> rat \<Rightarrow> rat result" where
  "inbound_sum [] previous_page_rank page acc = Inr acc"
| "inbound_sum ((p, links) # rest) previous_page_rank page acc =
     (if page |\<in>| links
      then (case getitem previous_page_rank p of
              Inl e \<Rightarrow> Inl e
            | Inr r \<Rightarrow>
                (case truediv r (of_nat (fcard links)) of
                   Inl e \<Rightarrow> Inl e
                 | Inr q \<Rightarrow> inbound_sum rest previous_page_rank page (acc + q)))
      else inbound_sum rest previous_page_rank page acc)"

text \<open>
  Lines 168--178, the loop over the pages: \<^verbatim>\<open>page_rank\<close> is written in place, one page
  after the other, and \<^verbatim>\<open>previous_page_rank\<close> is the copy of line 165.
\<close>

fun update_ranks ::
  "'p corpus \<Rightarrow> rat \<Rightarrow> rat \<Rightarrow> 'p dist \<Rightarrow> 'p list \<Rightarrow> 'p dist \<Rightarrow> 'p dist result" where
  "update_ranks corpus damping_factor first_condition previous_page_rank [] page_rank =
     Inr page_rank"
| "update_ranks corpus damping_factor first_condition previous_page_rank (page # pages)
     page_rank =
     (case inbound_sum corpus previous_page_rank page 0 of
        Inl e \<Rightarrow> Inl e
      | Inr second_condition \<Rightarrow>
          update_ranks corpus damping_factor first_condition previous_page_rank pages
            (setitem page_rank page (first_condition + damping_factor * second_condition)))"

text \<open>Lines 181--184: the number of pages whose rank moved by more than the threshold.\<close>

fun count_changes :: "'p dist \<Rightarrow> 'p dist \<Rightarrow> rat \<Rightarrow> 'p list \<Rightarrow> nat \<Rightarrow> nat result" where
  "count_changes previous_page_rank page_rank threshold [] count = Inr count"
| "count_changes previous_page_rank page_rank threshold (page # pages) count =
     (case getitem previous_page_rank page of
        Inl e \<Rightarrow> Inl e
      | Inr old \<Rightarrow>
          (case getitem page_rank page of
             Inl e \<Rightarrow> Inl e
           | Inr new \<Rightarrow>
               count_changes previous_page_rank page_rank threshold pages
                 (if \<bar>old - new\<bar> > threshold then count + 1 else count)))"

text \<open>
  One pass of the loop body (lines 165--186): the new ranks and whether they converged.
\<close>

definition pass ::
  "'p corpus \<Rightarrow> rat \<Rightarrow> rat \<Rightarrow> rat \<Rightarrow> 'p dist \<Rightarrow> (bool \<times> 'p dist) result" where
  "pass corpus damping_factor threshold first_condition page_rank =
     (let previous_page_rank = page_rank in
      case update_ranks corpus damping_factor first_condition previous_page_rank
             (map fst page_rank) page_rank of
        Inl e \<Rightarrow> Inl e
      | Inr page_rank' \<Rightarrow>
          (case count_changes previous_page_rank page_rank' threshold
                  (map fst page_rank') 0 of
             Inl e \<Rightarrow> Inl e
           | Inr count \<Rightarrow> Inr (count = 0, page_rank')))"

text \<open>
  Lines 163--186, \<^verbatim>\<open>while not convergence\<close>: the loop has no other exit, so it is a
  partial function, and \<open>None\<close> is the loop that never ends.
\<close>

partial_function (option) converge ::
  "'p corpus \<Rightarrow> rat \<Rightarrow> rat \<Rightarrow> rat \<Rightarrow> 'p dist \<Rightarrow> 'p dist result option" where
  "converge corpus damping_factor threshold first_condition page_rank =
     (case pass corpus damping_factor threshold first_condition page_rank of
        Inl e \<Rightarrow> Some (Inl e)
      | Inr (convergence, page_rank') \<Rightarrow>
          if convergence then Some (Inr page_rank')
          else converge corpus damping_factor threshold first_condition page_rank')"

declare converge.simps [code]

definition iterate_pagerank :: "'p corpus \<Rightarrow> rat \<Rightarrow> 'p dist result option" where
  "iterate_pagerank corpus damping_factor =
     (case comprehension
             (\<lambda>(key, _).
                case truediv 1 (of_nat (length corpus)) of
                  Inl e \<Rightarrow> Inl e
                | Inr v \<Rightarrow> Inr (key, v)) corpus of
        Inl e \<Rightarrow> Some (Inl e)
      | Inr page_rank \<Rightarrow>
          (case truediv (1 - damping_factor) (of_nat (length page_rank)) of
             Inl e \<Rightarrow> Some (Inl e)
           | Inr first_condition \<Rightarrow>
               (case converge corpus damping_factor (1 / 1000) first_condition page_rank of
                  None \<Rightarrow> None
                | Some (Inl e) \<Rightarrow> Some (Inl e)
                | Some (Inr page_rank') \<Rightarrow> Some (normalize_probability page_rank'))))"

section \<open>Closed forms used in the statements\<close>


text \<open>The dict that lines 71--82 build, written as one map over the corpus.\<close>

definition weights :: "'p corpus \<Rightarrow> 'p fset \<Rightarrow> rat \<Rightarrow> 'p dist" where
  "weights corpus links d =
     map (\<lambda>(q, _). (q, if q |\<in>| links
                         then d / of_nat (fcard links) + (1 - d) / of_nat (length corpus)
                         else (1 - d) / of_nat (length corpus))) corpus"

text \<open>
  The rank a dict holds for a page (0 for a page it does not hold), and the rank the
  specification gives a page after one pass (section 4.3): the random-jump term plus
  \<open>d\<close> times the sum, over the pages \<open>q\<close> whose link set contains \<open>p\<close>, of the previous
  rank of \<open>q\<close> divided by the number of links of \<open>q\<close>.
\<close>

definition rank :: "'p dist \<Rightarrow> 'p \<Rightarrow> rat" where
  "rank page_rank p = (case map_of page_rank p of Some r \<Rightarrow> r | None \<Rightarrow> 0)"

definition spec_rank :: "'p corpus \<Rightarrow> rat \<Rightarrow> 'p dist \<Rightarrow> 'p \<Rightarrow> rat" where
  "spec_rank corpus d previous p =
     (1 - d) / of_nat (length corpus)
     + d * sum_list (map (\<lambda>(q, links). rank previous q / of_nat (fcard links))
                      (filter (\<lambda>(q, links). p |\<in>| links) corpus))"



section \<open>Lemmas on the building blocks\<close>

lemma comprehension_Inr:
  "(\<And>x. x \<in> set xs \<Longrightarrow> f x = Inr (g x)) \<Longrightarrow> comprehension f xs = Inr (map g xs)"
  by (induction xs) simp_all

lemma comprehension_Inl:
  "xs \<noteq> [] \<Longrightarrow> (\<And>x. x \<in> set xs \<Longrightarrow> f x = Inl e) \<Longrightarrow> comprehension f xs = Inl e"
  by (cases xs) simp_all

lemma sum_list_divide: "sum_list (map (\<lambda>x. f x / c) xs) = sum_list (map f xs) / (c::rat)"
  by (induction xs) (simp_all add: add_divide_distrib)

lemma normalize_probability_positive:
  assumes "sum_values d \<noteq> 0"
  shows "normalize_probability d = Inr (map (\<lambda>(page, prob). (page, prob / sum_values d)) d)"
    and "sum_values (map (\<lambda>(page, prob). (page, prob / sum_values d)) d) = 1"
proof -
  let ?t = "sum_values d"
  let ?g = "\<lambda>(page, prob). (page, prob / ?t)"
  have c: "comprehension (\<lambda>(page, prob). case truediv prob ?t of Inl e \<Rightarrow> Inl e | Inr v \<Rightarrow> Inr (page, v)) d
      = Inr (map ?g d)"
    using assms by (intro comprehension_Inr) (auto simp: truediv_def)
  have "map snd (map ?g d) = map (\<lambda>x. snd x / ?t) d"
    by (simp add: case_prod_unfold)
  then have "sum_values (map ?g d) = sum_list (map snd d) / ?t"
    unfolding sum_values_def by (simp only: sum_list_divide)
  then show s: "sum_values (map ?g d) = 1"
    using assms by (simp add: sum_values_def)
  show "normalize_probability d = Inr (map ?g d)"
    unfolding normalize_probability_def Let_def c using s by simp
qed

lemma normalize_probability_zero:
  assumes "d \<noteq> []" "sum_values d = 0"
  shows "normalize_probability d = Inl ZeroDivisionError"
proof -
  have "comprehension (\<lambda>(page, prob). case truediv prob (sum_values d) of Inl e \<Rightarrow> Inl e | Inr v \<Rightarrow> Inr (page, v)) d
      = Inl ZeroDivisionError"
    using assms by (intro comprehension_Inl) (auto simp: truediv_def)
  then show ?thesis unfolding normalize_probability_def Let_def by simp
qed

lemma normalize_probability_not_SumException: "d \<noteq> [] \<Longrightarrow> normalize_probability d \<noteq> Inl SumException"
  by (cases "sum_values d = 0") (simp_all add: normalize_probability_zero normalize_probability_positive)

lemma uniform_dict:
  "corpus \<noteq> [] \<Longrightarrow>
   comprehension (\<lambda>(key, _). case truediv 1 (of_nat (length corpus)) of Inl e \<Rightarrow> Inl e | Inr v \<Rightarrow> Inr (key, v)) corpus
     = Inr (map (\<lambda>(key, _). (key, 1 / of_nat (length corpus))) corpus)"
  by (intro comprehension_Inr) (auto simp: truediv_def)








lemma map_of_keyed:
  "map_of (map (\<lambda>(q, _). (q, f q)) xs) k = (if k \<in> fst ` set xs then Some (f k) else None)"
  by (induction xs) auto



subsection \<open>One pass of the iterative engine\<close>

lemma getitem_rank:
  "k \<in> fst ` set d \<Longrightarrow> getitem d k = Inr (rank d k)"
  by (auto simp: getitem_def rank_def map_of_eq_None_iff split: option.splits)

lemma inbound_sum_eq:
  "fst ` set rest \<subseteq> fst ` set previous \<Longrightarrow>
   inbound_sum rest previous page acc =
     Inr (acc + sum_list (map (\<lambda>(q, links). rank previous q / of_nat (fcard links))
                           (filter (\<lambda>(q, links). page |\<in>| links) rest)))"
proof (induction rest arbitrary: acc)
  case Nil
  then show ?case by simp
next
  case (Cons x rest)
  obtain p links where x: "x = (p, links)" by (cases x)
  have p: "p \<in> fst ` set previous" and sub: "fst ` set rest \<subseteq> fst ` set previous"
    using Cons.prems x by auto
  show ?case
  proof (cases "page |\<in>| links")
    case True
    then have "fcard links \<noteq> 0" by (auto simp: fcard_0_eq)
    then show ?thesis
      using True by (simp add: x getitem_rank[OF p] truediv_def Cons.IH[OF sub] add.assoc)
  next
    case False
    then show ?thesis by (simp add: x Cons.IH[OF sub])
  qed
qed

lemma setitem_map:
  "k \<in> fst ` set d \<Longrightarrow> distinct (map fst d) \<Longrightarrow>
   setitem d k v = map (\<lambda>(p, w). (p, if p = k then v else w)) d"
proof (induction d)
  case Nil
  then show ?case by simp
next
  case (Cons x d)
  obtain k' v' where x: "x = (k', v')" by (cases x)
  show ?case
  proof (cases "k' = k")
    case True
    then have "k \<notin> fst ` set d" using Cons.prems(2) x by auto
    then have "map (\<lambda>(p, w). (p, if p = k then v else w)) d = d"
      by (intro map_idI) (auto simp: image_iff)
    then show ?thesis using True by (simp add: x)
  next
    case False
    then show ?thesis using Cons x by auto
  qed
qed

lemma update_ranks_eq:
  assumes "\<And>page. page \<in> set pages \<Longrightarrow> inbound_sum corpus previous page 0 = Inr (s page)"
    and "set pages \<subseteq> fst ` set page_rank" and "distinct (map fst page_rank)"
  shows "update_ranks corpus d first previous pages page_rank =
           Inr (map (\<lambda>(p, v). (p, if p \<in> set pages then first + d * s p else v)) page_rank)"
  using assms
proof (induction pages arbitrary: page_rank)
  case Nil
  then show ?case by (simp add: case_prod_unfold)
next
  case (Cons page pages)
  let ?pr = "map (\<lambda>(p, w). (p, if p = page then first + d * s page else w)) page_rank"
  have k: "map fst ?pr = map fst page_rank" by (simp add: case_prod_unfold comp_def)
  have si: "setitem page_rank page (first + d * s page) = ?pr"
    using Cons.prems(2,3) by (intro setitem_map) auto
  have ih: "update_ranks corpus d first previous pages ?pr =
              Inr (map (\<lambda>(p, v). (p, if p \<in> set pages then first + d * s p else v)) ?pr)"
  proof (rule Cons.IH)
    show "set pages \<subseteq> fst ` set ?pr"
      using Cons.prems(2) unfolding set_map[symmetric] k by simp
    show "distinct (map fst ?pr)" unfolding k by (rule Cons.prems(3))
  qed (simp add: Cons.prems(1))
  have "update_ranks corpus d first previous (page # pages) page_rank =
          update_ranks corpus d first previous pages
            (setitem page_rank page (first + d * s page))"
    using Cons.prems(1)[of page] by simp
  also have "\<dots> = Inr (map (\<lambda>(p, v). (p, if p \<in> set pages then first + d * s p else v)) ?pr)"
    unfolding si by (rule ih)
  also have "map (\<lambda>(p, v). (p, if p \<in> set pages then first + d * s p else v)) ?pr =
               map (\<lambda>(p, v). (p, if p \<in> set (page # pages) then first + d * s p else v))
                 page_rank"
    by auto
  finally show ?case .
qed

lemma count_changes_eq:
  "set pages \<subseteq> fst ` set previous \<Longrightarrow> set pages \<subseteq> fst ` set page_rank \<Longrightarrow>
   count_changes previous page_rank threshold pages count =
     Inr (count + length (filter (\<lambda>p. \<bar>rank previous p - rank page_rank p\<bar> > threshold) pages))"
  by (induction pages arbitrary: count) (simp_all add: getitem_rank)

lemma rank_keyed:
  "k \<in> fst ` set xs \<Longrightarrow> rank (map (\<lambda>(q, _). (q, f q)) xs) k = f k"
  by (simp add: rank_def map_of_keyed)

lemma pass_eq:
  assumes "distinct (map fst corpus)" and "map fst page_rank = map fst corpus"
  shows "pass corpus d threshold ((1 - d) / of_nat (length corpus)) page_rank =
           Inr (\<forall>p \<in> set (map fst corpus).
                   \<bar>rank page_rank p - spec_rank corpus d page_rank p\<bar> \<le> threshold,
                map (\<lambda>(p, _). (p, spec_rank corpus d page_rank p)) page_rank)"
proof -
  let ?first = "(1 - d) / of_nat (length corpus)"
  let ?s = "\<lambda>page. sum_list (map (\<lambda>(q, links). rank page_rank q / of_nat (fcard links))
                           (filter (\<lambda>(q, links). page |\<in>| links) corpus))"
  let ?new = "map (\<lambda>(p, _). (p, spec_rank corpus d page_rank p)) page_rank"
  have keys: "fst ` set page_rank = fst ` set corpus"
    using assms(2) by (metis list.set_map)
  have inb: "inbound_sum corpus page_rank page 0 = Inr (?s page)" for page
    using inbound_sum_eq[of corpus page_rank page 0] keys by simp
  have "update_ranks corpus d ?first page_rank (map fst page_rank) page_rank =
          Inr (map (\<lambda>(p, v). (p, if p \<in> set (map fst page_rank) then ?first + d * ?s p else v))
                 page_rank)"
    using assms(1) unfolding assms(2)[symmetric] by (intro update_ranks_eq inb) simp_all
  also have "map (\<lambda>(p, v). (p, if p \<in> set (map fst page_rank) then ?first + d * ?s p else v))
                 page_rank = ?new"
    by (auto simp: spec_rank_def rev_image_eqI)
  finally have u: "update_ranks corpus d ?first page_rank (map fst page_rank) page_rank = Inr ?new" .
  have kn: "map fst ?new = map fst corpus"
    using assms(2) by (simp add: case_prod_unfold comp_def)
  have c: "count_changes page_rank ?new threshold (map fst ?new) 0 =
             Inr (0 + length (filter (\<lambda>p. \<bar>rank page_rank p - rank ?new p\<bar> > threshold) (map fst ?new)))"
  proof (rule count_changes_eq)
    show "set (map fst ?new) \<subseteq> fst ` set page_rank"
      unfolding kn using keys by simp
    show "set (map fst ?new) \<subseteq> fst ` set ?new"
      unfolding set_map by (rule subset_refl)
  qed
  have r: "rank ?new p = spec_rank corpus d page_rank p" if "p \<in> set (map fst corpus)" for p
    using that keys by (intro rank_keyed) simp
  have fl: "(0 + length (filter (\<lambda>p. \<bar>rank page_rank p - rank ?new p\<bar> > threshold) (map fst ?new)) = 0)
          = (\<forall>p \<in> set (map fst corpus). \<bar>rank page_rank p - spec_rank corpus d page_rank p\<bar> \<le> threshold)"
    unfolding kn by (auto simp: filter_empty_conv r not_less)
  show ?thesis
    by (simp only: pass_def Let_def u c sum.case fl)
qed

subsection \<open>The loop of the iterative engine ends\<close>


















subsection \<open>The sampling loop\<close>









subsection \<open>A loop that never ends\<close>


subsection \<open>A page without links\<close>

lemma map_of_setitem:
  "map_of (setitem d k v) k' = (if k' = k then Some v else map_of d k')"
  by (induction d) auto

lemma rank_setitem: "k' \<noteq> k \<Longrightarrow> rank (setitem d k v) k' = rank d k'"
  by (simp add: rank_def map_of_setitem)

lemma dangling_no_contribution:
  assumes "distinct (map fst corpus)" and "map_of corpus q = Some {||}"
  shows "spec_rank corpus d (setitem page_rank q v) p = spec_rank corpus d page_rank p"
proof -
  have m: "map (\<lambda>(q', links). rank (setitem page_rank q v) q' / of_nat (fcard links))
            (filter (\<lambda>(q', links). p |\<in>| links) corpus)
      = map (\<lambda>(q', links). rank page_rank q' / of_nat (fcard links))
            (filter (\<lambda>(q', links). p |\<in>| links) corpus)"
  proof (rule map_cong[OF refl])
    fix e assume e: "e \<in> set (filter (\<lambda>(q', links). p |\<in>| links) corpus)"
    obtain q' links where eq: "e = (q', links)" by (cases e)
    have in_c: "(q', links) \<in> set corpus" and l: "p |\<in>| links" using e eq by auto
    have "q' \<noteq> q"
    proof
      assume "q' = q"
      then have "map_of corpus q = Some links"
        using in_c assms(1) by (simp add: map_of_eq_Some_iff)
      then show False using assms(2) l by auto
    qed
    then show "(case e of (q', links) \<Rightarrow> rank (setitem page_rank q v) q' / of_nat (fcard links))
             = (case e of (q', links) \<Rightarrow> rank page_rank q' / of_nat (fcard links))"
      by (simp add: eq rank_setitem)
  qed
  show ?thesis unfolding spec_rank_def m by (rule refl)
qed

subsection \<open>Evaluation on concrete inputs\<close>

lemma upt_2: "[0..<2] = [0, Suc 0]"
  by (simp add: upt_rec)

lemmas evaluate =
  transition_model_def link_weights_def normalize_probability_def truediv_def getitem_def
  sum_values_def sample_pagerank_def sample_estimates_def random_choice_def random_choices_def
  iterate_pagerank_def pass_def fcard_finsert_if fcard_fempty upt_2
  first_member_def round_robin_def

section \<open>The transition model\<close>







section \<open>The empty corpus\<close>

text \<open>
  Claim C9, as the code has it. The code validates nothing, so on an empty corpus each
  function fails with the first Python exception it runs into: the transition model with
  \<^verbatim>\<open>KeyError\<close> (the lookup of line 65; the comprehension of line 62 divides nothing),
  the sampling engine with \<^verbatim>\<open>IndexError\<close> (\<^verbatim>\<open>random.choice\<close> of line 107), the
  iterative engine with \<^verbatim>\<open>ZeroDivisionError\<close> (line 160). This holds for every page,
  damping factor, sample count and random source.
\<close>

theorem empty_corpus_errors:
  "transition_model [] p d = Inl KeyError
   \<and> sample_pagerank rnd [] d n = Inl IndexError
   \<and> iterate_pagerank [] d = Some (Inl ZeroDivisionError)"
  by (simp add: transition_model_def getitem_def sample_pagerank_def sample_estimates_def
        random_choice_def iterate_pagerank_def truediv_def)

text \<open>
  The claim itself, that each of them fails with an invalid-argument condition and with
  no other error, is false on the empty corpus of string-named pages.
\<close>

theorem empty_corpus_counterexample:
  "transition_model ([] :: string corpus) ''A'' (85 / 100) = Inl KeyError
   \<and> sample_pagerank first_member ([] :: string corpus) (85 / 100) 10000 = Inl IndexError
   \<and> iterate_pagerank ([] :: string corpus) (85 / 100) = Some (Inl ZeroDivisionError)"
  by (simp add: transition_model_def getitem_def sample_pagerank_def sample_estimates_def
        random_choice_def iterate_pagerank_def truediv_def)

section \<open>The iterative engine\<close>

text \<open>
  Claim C8. On the corpus of two pages that link to each other, the iterative engine
  returns rank \<open>1/2\<close> for both, exactly, after one pass, whatever the damping factor.
\<close>

theorem two_page_cycle:
  assumes "a \<noteq> b"
  shows "iterate_pagerank [(a, {|b|}), (b, {|a|})] d = Some (Inr [(a, 1 / 2), (b, 1 / 2)])"
proof -
  let ?G = "[(a, {|b|}), (b, {|a|})]"
  let ?u = "[(a, 1 / 2), (b, 1 / 2 :: rat)]"
  have p: "pass ?G d (1 / 1000) ((1 - d) / 2) ?u = Inr (True, ?u)"
    using assms
    by (simp add: pass_def getitem_def truediv_def fcard_finsert_if fcard_fempty
          diff_divide_distrib)
  have c: "converge ?G d (1 / 1000) ((1 - d) / 2) ?u = Some (Inr ?u)"
    by (subst converge.simps) (simp add: p)
  have n: "normalize_probability ?u = Inr ?u"
    by (simp add: normalize_probability_def sum_values_def truediv_def)
  show ?thesis
    by (simp add: iterate_pagerank_def truediv_def c n)
qed

theorem two_page_cycle_witness:
  "''A'' \<noteq> ''B''
   \<and> iterate_pagerank [(''A'', {|''B''|}), (''B'', {|''A''|})] (85 / 100)
       = Some (Inr [(''A'', 1 / 2), (''B'', 1 / 2)])"
  using two_page_cycle [of "''A''" "''B''" "85 / 100"] by simp

text \<open>
  Claim C2. One pass of the loop (lines 165--186), started on ranks over the pages of
  the corpus, returns for every page \<open>p\<close> the rank \<open>(1 - d) / |G|\<close> plus \<open>d\<close> times the sum,
  over the pages \<open>q\<close> whose link set contains \<open>p\<close>, of the rank of \<open>q\<close> before the pass
  divided by the number of links of \<open>q\<close>. The code writes the new ranks into the dict
  one page after the other; every rank it reads is the one from before the pass. A page
  without links contributes to no sum: replacing its previous rank by any value changes
  no new rank.
\<close>

theorem pass_simultaneous_update:
  assumes "distinct (map fst corpus)" and "map fst page_rank = map fst corpus"
  shows "(\<exists>convergence.
            pass corpus d threshold ((1 - d) / of_nat (length corpus)) page_rank =
              Inr (convergence, map (\<lambda>(p, _). (p, spec_rank corpus d page_rank p)) page_rank))
         \<and> (\<forall>q v p. map_of corpus q = Some {||} \<longrightarrow>
               spec_rank corpus d (setitem page_rank q v) p = spec_rank corpus d page_rank p)"
  using pass_eq[OF assms, of d threshold] dangling_no_contribution[OF assms(1)] by blast

theorem pass_simultaneous_update_witness:
  "distinct (map fst [(''A'', {|''B''|}), (''B'', {||})])
   \<and> map fst [(''A'', 1 / 2), (''B'', 1 / 2 :: rat)] = map fst [(''A'', {|''B''|}), (''B'', {||})]
   \<and> (\<exists>convergence.
         pass [(''A'', {|''B''|}), (''B'', {||})] (85 / 100) (1 / 1000) ((1 - 85 / 100) / 2)
              [(''A'', 1 / 2), (''B'', 1 / 2)]
           = Inr (convergence, [(''A'', 3 / 40), (''B'', 1 / 2)]))
   \<and> spec_rank [(''A'', {|''B''|}), (''B'', {||})] (85 / 100)
         (setitem [(''A'', 1 / 2), (''B'', 1 / 2)] ''B'' 7) ''A''
       = spec_rank [(''A'', {|''B''|}), (''B'', {||})] (85 / 100)
           [(''A'', 1 / 2), (''B'', 1 / 2)] ''A''"
  using pass_simultaneous_update
          [of "[(''A'', {|''B''|}), (''B'', {||})]" "[(''A'', 1 / 2), (''B'', 1 / 2)]"
              "85 / 100" "1 / 1000"]
  by (simp add: spec_rank_def rank_def fcard_finsert_if fcard_fempty)




section \<open>The sampling engine\<close>







section \<open>The normalisation step\<close>

text \<open>
  Claim C10. Under exact arithmetic, whenever the values before the normalisation have a
  positive total, each of the three functions returns these values divided by the total,
  and they sum to exactly 1: the exception of lines 91, 133 and 195 is not raised. The
  values before the normalisation are \<open>w1\<close> (lines 71--82 of the transition model, for a
  page with links), \<open>w2\<close> (lines 106--124 of the sampling engine) and \<open>w3\<close> (the ranks
  the loop of the iterative engine ends with).
\<close>

theorem normalization_exact:
  "(map_of corpus page = Some links \<and> links \<noteq> {||}
      \<and> link_weights corpus links d (map (\<lambda>(key, _). (key, 1 / of_nat (length corpus))) corpus)
          = Inr w1
      \<and> 0 < sum_values w1
    \<longrightarrow> transition_model corpus page d = Inr (map (\<lambda>(p, v). (p, v / sum_values w1)) w1)
        \<and> sum_values (map (\<lambda>(p, v). (p, v / sum_values w1)) w1) = 1)
   \<and> (sample_estimates rnd corpus d n = Inr w2 \<and> 0 < sum_values w2
    \<longrightarrow> sample_pagerank rnd corpus d n = Inr (map (\<lambda>(p, v). (p, v / sum_values w2)) w2)
        \<and> sum_values (map (\<lambda>(p, v). (p, v / sum_values w2)) w2) = 1)
   \<and> (corpus \<noteq> []
      \<and> converge corpus d (1 / 1000) ((1 - d) / of_nat (length corpus))
            (map (\<lambda>(key, _). (key, 1 / of_nat (length corpus))) corpus) = Some (Inr w3)
      \<and> 0 < sum_values w3
    \<longrightarrow> iterate_pagerank corpus d = Some (Inr (map (\<lambda>(p, v). (p, v / sum_values w3)) w3))
        \<and> sum_values (map (\<lambda>(p, v). (p, v / sum_values w3)) w3) = 1)"
proof (intro conjI impI)
  assume a: "map_of corpus page = Some links \<and> links \<noteq> {||}
      \<and> link_weights corpus links d (map (\<lambda>(key, _). (key, 1 / of_nat (length corpus))) corpus)
          = Inr w1
      \<and> 0 < sum_values w1"
  then have ne: "corpus \<noteq> []" by auto
  have fc: "fcard links \<noteq> 0" using a by (simp add: fcard_0_eq)
  have n: "normalize_probability w1 = Inr (map (\<lambda>(p, v). (p, v / sum_values w1)) w1)"
    using a by (intro normalize_probability_positive(1)) simp
  show "transition_model corpus page d = Inr (map (\<lambda>(p, v). (p, v / sum_values w1)) w1)"
    unfolding transition_model_def uniform_dict[OF ne]
    using a fc by (simp add: getitem_def n del: fcard_0_eq)
  show "sum_values (map (\<lambda>(p, v). (p, v / sum_values w1)) w1) = 1"
    using a by (intro normalize_probability_positive(2)) simp
next
  assume a: "sample_estimates rnd corpus d n = Inr w2 \<and> 0 < sum_values w2"
  have n: "normalize_probability w2 = Inr (map (\<lambda>(p, v). (p, v / sum_values w2)) w2)"
    using a by (intro normalize_probability_positive(1)) simp
  show "sample_pagerank rnd corpus d n = Inr (map (\<lambda>(p, v). (p, v / sum_values w2)) w2)"
    using a by (simp add: sample_pagerank_def n)
  show "sum_values (map (\<lambda>(p, v). (p, v / sum_values w2)) w2) = 1"
    using a by (intro normalize_probability_positive(2)) simp
next
  assume a: "corpus \<noteq> []
      \<and> converge corpus d (1 / 1000) ((1 - d) / of_nat (length corpus))
            (map (\<lambda>(key, _). (key, 1 / of_nat (length corpus))) corpus) = Some (Inr w3)
      \<and> 0 < sum_values w3"
  then have ne: "corpus \<noteq> []" by simp
  have n: "normalize_probability w3 = Inr (map (\<lambda>(p, v). (p, v / sum_values w3)) w3)"
    using a by (intro normalize_probability_positive(1)) simp
  show "iterate_pagerank corpus d = Some (Inr (map (\<lambda>(p, v). (p, v / sum_values w3)) w3))"
    unfolding iterate_pagerank_def uniform_dict[OF ne]
    using a by (simp add: truediv_def n)
  show "sum_values (map (\<lambda>(p, v). (p, v / sum_values w3)) w3) = 1"
    using a by (intro normalize_probability_positive(2)) simp
qed

theorem normalization_exact_witness:
  "transition_model [(''A'', {|''B''|}), (''B'', {|''A''|})] ''A'' (85 / 100)
     = Inr [(''A'', 3 / 40), (''B'', 37 / 40)]
   \<and> sample_pagerank round_robin [(''A'', {|''B''|}), (''B'', {|''A''|})] (85 / 100) 2
     = Inr [(''A'', 1 / 2), (''B'', 1 / 2)]
   \<and> iterate_pagerank [(''A'', {|''B''|}), (''B'', {|''A''|})] (85 / 100)
     = Some (Inr [(''A'', 1 / 2), (''B'', 1 / 2)])"
proof -
  let ?G = "[(''A'', {|''B''|}), (''B'', {|''A''|})]"
  let ?u = "[(''A'', 1 / 2), (''B'', 1 / 2 :: rat)]"
  let ?w = "[(''A'', 3 / 40), (''B'', 37 / 40 :: rat)]"
  have h1: "link_weights ?G {|''B''|} (85 / 100)
              (map (\<lambda>(key, _). (key, 1 / of_nat (length ?G))) ?G) = Inr ?w"
    by (simp add: link_weights_def truediv_def fcard_finsert_if fcard_fempty)
  have h2: "sample_estimates round_robin ?G (85 / 100) 2 = Inr ?u"
    by (simp add: evaluate)
  have h3: "converge ?G (85 / 100) (1 / 1000) ((1 - 85 / 100) / of_nat (length ?G))
              (map (\<lambda>(key, _). (key, 1 / of_nat (length ?G))) ?G) = Some (Inr ?u)"
    by (subst converge.simps) (simp add: evaluate)
  show ?thesis
    using normalization_exact
            [of ?G "''A''" "{|''B''|}" "85 / 100" ?w round_robin 2 ?u ?u] h1 h2 h3
    by (simp add: sum_values_def)
qed

end
